theory Spec2Isabelle
  imports Main "HOL-Library.Log_Nat" "HOL-Library.AList"
begin

section \<open>Data model (types.ts)\<close>

text \<open>
  The records follow the interfaces of the source. A field whose name is already a
  constant or a keyword of Isabelle carries a suffix (\<open>size_pdf\<close>, \<open>id_img\<close>,
  \<open>keywords_ai\<close>, \<open>name_file\<close>).
  A JavaScript \<open>number\<close> that only ever holds a count is a \<open>nat\<close>; \<open>scale\<close> and
  \<open>quality\<close> are rationals. A thrown or rejected value is a \<open>js_error\<close>, and a call
  that can throw returns \<open>js_error + 'a\<close>.
\<close>

type_synonym bytes = "nat list"

datatype js_error = JsError string

record File =
  name_file :: string
  size_file :: nat
  type_file :: string
  data_file :: bytes

record PDFMetadata =
  name :: string
  size_pdf :: nat
  totalPages :: nat

datatype image_format = png | jpeg

record ConversionSettings =
  format :: image_format
  scale :: rat
  quality :: rat

record ConvertedImage =
  id_img :: string
  pageNumber :: nat
  dataUrl :: string
  blob :: "bytes option"
  width :: nat
  height :: nat

record AIInsights =
  summary :: string
  keywords_ai :: "string list"
  suggestedFileName :: string

text \<open>
  The interfaces are erased when the program runs. What \<open>JSON.parse\<close> returns is any JSON
  value: \<open>null\<close>, a boolean, a number (a double, which a numeral beyond the range makes
  infinite), a string, an array, or an object, given by its properties (no name twice).
  \<open>insights_value\<close> is the object an \<open>AIInsights\<close> literal evaluates to.
\<close>

datatype js_number = Finite rat | PosInfinity | NegInfinity

datatype json =
    JNull
  | JBool bool
  | JNumber js_number
  | JString string
  | JArray "json list"
  | JObject "(string \<times> json) list"

definition insights_value :: "AIInsights \<Rightarrow> json" where
  "insights_value a =
     JObject [(''summary'', JString (summary a)),
              (''keywords'', JArray (map JString (keywords_ai a))),
              (''suggestedFileName'', JString (suggestedFileName a))]"

text \<open>The text a template literal inserts for \<open>settings.format\<close>.\<close>

fun format_str :: "image_format \<Rightarrow> string" where
  "format_str png = ''png''"
| "format_str jpeg = ''jpeg''"

subsection \<open>Numbers in template literals\<close>

text \<open>\<open>`${n}`\<close> for a non-negative integer \<open>n\<close> is its decimal numeral.\<close>

definition digit_char :: "nat \<Rightarrow> char" where
  "digit_char d = char_of (48 + d)"

fun show_nat :: "nat \<Rightarrow> string" where
  "show_nat n = (if n < 10 then [digit_char n] else show_nat (n div 10) @ [digit_char (n mod 10)])"

declare show_nat.simps [simp del]

section \<open>The external collaborators\<close>

text \<open>
  The PDF library, the canvas, the clock, the remote model and \<open>JSON.parse\<close> are not
  code of the repository. They are the fields of a \<open>platform\<close>, and every statement
  below holds for every platform. \<open>'doc\<close>, \<open>'page\<close> and \<open>'surface\<close> are the library's
  document and page objects and the bitmap of a rendered canvas.
  \<^item> \<open>arrayBuffer\<close>: \<open>file.arrayBuffer()\<close>;
  \<^item> \<open>getDocument\<close>: \<open>pdfjsLib.getDocument({data}).promise\<close>; \<open>numPages\<close>: \<open>pdf.numPages\<close>;
  \<^item> \<open>getPage\<close>: \<open>pdf.getPage(n)\<close>; \<open>getViewport\<close>: \<open>page.getViewport({scale})\<close>, as
    (width, height);
  \<^item> \<open>getContext2d\<close>: whether \<open>canvas.getContext('2d')\<close> is not null;
  \<^item> \<open>render\<close>: \<open>page.render(renderContext).promise\<close> on a canvas of the given
    (width, height), giving the drawn bitmap;
  \<^item> \<open>toDataURL\<close>, \<open>toBlob\<close>: the canvas's two encoders, called with the MIME type and
    the quality; \<open>toBlob\<close> may hand \<open>null\<close> to its callback;
  \<^item> \<open>now\<close>: what \<open>Date.now()\<close> reads when the image of the given page is built;
  \<^item> \<open>getTextContent\<close>: the \<open>str\<close> of each item of \<open>page.getTextContent()\<close>;
  \<^item> \<open>generateContent\<close>: \<open>ai.models.generateContent\<close> for a model name and a prompt:
    \<open>None\<close> when the request never settles (the call sets no timeout), a rejection, or
    \<open>response.text\<close> (\<open>None\<close> for \<open>undefined\<close>);
  \<^item> \<open>JSON_parse\<close>: \<open>JSON.parse\<close>, which throws or returns a JSON value;
  \<^item> \<open>String_of\<close>: the text a template literal inserts for a value that is not a string.
\<close>

record ('doc, 'page, 'surface) platform =
  arrayBuffer :: "File \<Rightarrow> js_error + bytes"
  getDocument :: "bytes \<Rightarrow> js_error + 'doc"
  numPages :: "'doc \<Rightarrow> nat"
  getPage :: "'doc \<Rightarrow> nat \<Rightarrow> js_error + 'page"
  getViewport :: "'page \<Rightarrow> rat \<Rightarrow> rat \<times> rat"
  getContext2d :: bool
  render :: "'page \<Rightarrow> rat \<times> rat \<Rightarrow> nat \<times> nat \<Rightarrow> js_error + 'surface"
  toDataURL :: "'surface \<Rightarrow> string \<Rightarrow> rat \<Rightarrow> string"
  toBlob :: "'surface \<Rightarrow> string \<Rightarrow> rat \<Rightarrow> bytes option"
  now :: "nat \<Rightarrow> nat"
  getTextContent :: "'page \<Rightarrow> js_error + string list"
  generateContent :: "string \<Rightarrow> string \<Rightarrow> (js_error + string option) option"
  JSON_parse :: "string \<Rightarrow> js_error + json"
  String_of :: "json \<Rightarrow> string"

section \<open>services/pdfProcessor.ts\<close>

definition getPDFMetadata ::
  "('doc, 'page, 'surface) platform \<Rightarrow> File \<Rightarrow> js_error + PDFMetadata" where
  "getPDFMetadata P f =
     (case arrayBuffer P f of Inl e \<Rightarrow> Inl e | Inr buf \<Rightarrow>
      case getDocument P buf of Inl e \<Rightarrow> Inl e | Inr pdf \<Rightarrow>
      Inr \<lparr>name = name_file f, size_pdf = size_file f, totalPages = numPages P pdf\<rparr>)"

text \<open>
  Assigning a viewport length to \<open>canvas.width\<close> or \<open>canvas.height\<close> keeps its integer
  part (viewport lengths are not negative).
\<close>

definition canvas_dim :: "rat \<Rightarrow> nat" where
  "canvas_dim x = nat \<lfloor>x\<rfloor>"

definition convertPageToImage ::
  "('doc, 'page, 'surface) platform \<Rightarrow> File \<Rightarrow> nat \<Rightarrow> ConversionSettings
     \<Rightarrow> js_error + ConvertedImage" where
  "convertPageToImage P f pageNo st =
     (case arrayBuffer P f of Inl e \<Rightarrow> Inl e | Inr buf \<Rightarrow>
      case getDocument P buf of Inl e \<Rightarrow> Inl e | Inr pdf \<Rightarrow>
      case getPage P pdf pageNo of Inl e \<Rightarrow> Inl e | Inr page \<Rightarrow>
      let viewport = getViewport P page (scale st) in
      if \<not> getContext2d P then Inl (JsError ''Could not get canvas context'')
      else
        let canvas_height = canvas_dim (snd viewport);
            canvas_width = canvas_dim (fst viewport)
        in case render P page viewport (canvas_width, canvas_height) of
             Inl e \<Rightarrow> Inl e
           | Inr canvas \<Rightarrow>
               let mimeType = ''image/'' @ format_str (format st);
                   url = toDataURL P canvas mimeType (quality st);
                   b = toBlob P canvas mimeType (quality st)
               in Inr \<lparr>id_img = ''p-'' @ show_nat pageNo @ ''-'' @ show_nat (now P pageNo),
                        pageNumber = pageNo, dataUrl = url, blob = b,
                        width = canvas_width, height = canvas_height\<rparr>)"

section \<open>services/geminiService.ts\<close>

text \<open>
  The template literal passed as \<open>contents\<close>, with its line breaks and the indentation of
  its lines, around \<open>text.substring(0, 4000)\<close>. The \<open>config\<close> of the request is the same in
  every call.
\<close>

definition nl :: string where
  "nl = [CHR 0x0A]"

definition indent :: string where
  "indent = replicate 6 (CHR '' '')"

definition contents :: "string \<Rightarrow> string" where
  "contents text =
     ''Analyze the following text extracted from a PDF document and provide insights in JSON format.''
       @ nl
     @ indent @ nl
     @ indent @ ''Text Content:'' @ nl
     @ indent @ [CHR 0x22] @ take 4000 text @ [CHR 0x22] @ nl
     @ indent @ nl
     @ indent @ ''Requirements:'' @ nl
     @ indent @ ''1. summary: A 1-2 sentence overview of the document content.'' @ nl
     @ indent @ ''2. keywords: 5-8 relevant keywords.'' @ nl
     @ indent @ ''3. suggestedFileName: A professional, snake_case filename based on the content (without extension).''"

definition default_insights :: AIInsights where
  "default_insights =
     \<lparr>summary = ''Could not analyze document content.'', keywords_ai = [],
      suggestedFileName = ''document_export''\<rparr>"

text \<open>
  The body of the \<open>try\<close> block: \<open>None\<close> while the request never settles, else what the body
  throws or returns. \<open>JSON.parse\<close> converts its argument to a string first, so an
  \<open>undefined\<close> \<open>response.text\<close> is parsed as the text \<open>undefined\<close>. The parsed value is
  returned as it is: nothing checks it against \<open>AIInsights\<close>.
\<close>

definition analyze_try ::
  "('doc, 'page, 'surface) platform \<Rightarrow> string \<Rightarrow> (js_error + json) option" where
  "analyze_try P text =
     (case generateContent P ''gemini-3-flash-preview'' (contents text) of
        None \<Rightarrow> None
      | Some (Inl e) \<Rightarrow> Some (Inl e)
      | Some (Inr response_text) \<Rightarrow>
          Some (JSON_parse P (case response_text of None \<Rightarrow> ''undefined'' | Some t \<Rightarrow> t)))"

datatype log_entry =
    ErrorReadingPDF js_error
  | FailedToConvertPage nat js_error
  | AIAnalysisFailed js_error

text \<open>
  \<open>analyzePDFContent\<close> gives \<open>None\<close> while its promise never settles, else the settled
  promise (\<open>Inl\<close> would be a rejection) and the lines it wrote with \<open>console.error\<close>.
\<close>

definition analyzePDFContent ::
  "('doc, 'page, 'surface) platform \<Rightarrow> string
     \<Rightarrow> ((js_error + json) \<times> log_entry list) option" where
  "analyzePDFContent P text =
     (case analyze_try P text of
        None \<Rightarrow> None
      | Some (Inr v) \<Rightarrow> Some (Inr v, [])
      | Some (Inl error) \<Rightarrow>
          Some (Inr (insights_value default_insights), [AIAnalysisFailed error]))"

fun join_space :: "string list \<Rightarrow> string" where
  "join_space [] = []"
| "join_space [x] = x"
| "join_space (x # y # ys) = x @ '' '' @ join_space (y # ys)"

definition extractTextFromFirstPage ::
  "('doc, 'page, 'surface) platform \<Rightarrow> File \<Rightarrow> js_error + string" where
  "extractTextFromFirstPage P f =
     (case arrayBuffer P f of Inl e \<Rightarrow> Inl e | Inr buf \<Rightarrow>
      case getDocument P buf of Inl e \<Rightarrow> Inl e | Inr pdf \<Rightarrow>
      case getPage P pdf 1 of Inl e \<Rightarrow> Inl e | Inr page \<Rightarrow>
      case getTextContent P page of Inl e \<Rightarrow> Inl e | Inr items \<Rightarrow>
      Inr (join_space items))"

section \<open>The App component: session state\<close>

text \<open>
  The eight \<open>useState\<close> cells of \<open>App\<close> (\<open>file\<close> is \<open>file_state\<close>; \<open>aiInsights\<close> holds the value
  it was set to, \<open>JNull\<close> for \<open>null\<close>), and what the component does outside them:
  \<open>console\<close> holds the lines written with \<open>console.error\<close>, \<open>renderCalls\<close> the page
  numbers \<open>convertPageToImage\<close> was called with, and \<open>progressCalls\<close> the arguments of
  \<open>setProgress\<close>, each in the order of the calls.
\<close>

record session =
  file_state :: "File option"
  metadata :: "PDFMetadata option"
  settings :: ConversionSettings
  images :: "ConvertedImage list"
  isProcessing :: bool
  progress :: int
  aiInsights :: json
  isAnalyzing :: bool
  console :: "log_entry list"
  renderCalls :: "nat list"
  progressCalls :: "int list"

definition setProgress :: "int \<Rightarrow> session \<Rightarrow> session" where
  "setProgress v s = s\<lparr>progress := v, progressCalls := progressCalls s @ [v]\<rparr>"

definition console_error :: "log_entry \<Rightarrow> session \<Rightarrow> session" where
  "console_error l s = s\<lparr>console := console s @ [l]\<rparr>"

subsection \<open>handleFileUpload\<close>

text \<open>
  \<open>handleFileUpload_sync\<close> is the part of the handler that runs before its first
  \<open>await\<close>, \<open>handleFileUpload_rest\<close> the part after it, inside \<open>try\<close> (it stays at the
  \<open>await\<close> of \<open>analyzePDFContent\<close> when that never settles). The argument of
  \<open>handleFileUpload\<close> is \<open>event.target.files?.[0]\<close>.
\<close>

definition handleFileUpload_sync :: "File \<Rightarrow> session \<Rightarrow> session" where
  "handleFileUpload_sync uploadedFile s =
     setProgress 0 (s\<lparr>file_state := Some uploadedFile, images := [], aiInsights := JNull\<rparr>)"

definition handleFileUpload_rest ::
  "('doc, 'page, 'surface) platform \<Rightarrow> File \<Rightarrow> session \<Rightarrow> session" where
  "handleFileUpload_rest P uploadedFile s =
     (case getPDFMetadata P uploadedFile of
        Inl err \<Rightarrow> console_error (ErrorReadingPDF err) s
      | Inr meta \<Rightarrow>
          let s1 = s\<lparr>metadata := Some meta, isAnalyzing := True\<rparr> in
          (case extractTextFromFirstPage P uploadedFile of
             Inl err \<Rightarrow> console_error (ErrorReadingPDF err) s1
           | Inr text \<Rightarrow>
               (case analyzePDFContent P text of
                  None \<Rightarrow> s1
                | Some (Inl err, logs) \<Rightarrow>
                    console_error (ErrorReadingPDF err) (s1\<lparr>console := console s1 @ logs\<rparr>)
                | Some (Inr insights, logs) \<Rightarrow>
                    s1\<lparr>console := console s1 @ logs, aiInsights := insights,
                       isAnalyzing := False\<rparr>)))"

definition handleFileUpload ::
  "('doc, 'page, 'surface) platform \<Rightarrow> File option \<Rightarrow> session \<Rightarrow> session" where
  "handleFileUpload P target s =
     (case target of
        None \<Rightarrow> s
      | Some uploadedFile \<Rightarrow>
          if type_file uploadedFile = ''application/pdf''
          then handleFileUpload_rest P uploadedFile (handleFileUpload_sync uploadedFile s)
          else s)"

subsection \<open>Progress arithmetic\<close>

text \<open>
  \<open>Math.round((i / total) * 100)\<close> is computed in IEEE 754 binary64 arithmetic: the
  quotient is rounded to the nearest double, the product is rounded again, and
  \<open>Math.round\<close> takes the nearest integer, a tie going up. A double is the rational it
  denotes. \<open>fl\<close> rounds a rational to the nearest double: 53 significant bits, a tie going
  to the even significand. It is the rounding of the normal range, without overflow or
  subnormal numbers; the loop counter and the page count are integers a double holds
  exactly (below \<open>2 ^ 53\<close>), so every quotient of the loop lies between \<open>2 powi (- 53)\<close> and
  1 and every product between 0 and 100. \<open>binade x\<close> is the exponent \<open>e\<close> with
  \<open>2 powi e \<le> x < 2 powi (e + 1)\<close>.
\<close>

definition binade :: "rat \<Rightarrow> int" where
  "binade x = (let (p, q) = quotient_of x; e = bitlen p - bitlen q
               in if 2 powi e \<le> x then e else e - 1)"

definition round_even :: "rat \<Rightarrow> int" where
  "round_even x = (let f = \<lfloor>x\<rfloor>; d = x - of_int f in
     if d < 1 / 2 then f else if 1 / 2 < d then f + 1 else if even f then f else f + 1)"

definition fl :: "rat \<Rightarrow> rat" where
  "fl x = (if x = 0 then 0 else
     let u = 2 powi (binade \<bar>x\<bar> - 52) in of_int (round_even (x / u)) * u)"

definition Math_round :: "rat \<Rightarrow> int" where
  "Math_round x = \<lfloor>x + 1 / 2\<rfloor>"

definition progress_of :: "nat \<Rightarrow> nat \<Rightarrow> int" where
  "progress_of i n = Math_round (fl (fl (of_nat i / of_nat n) * 100))"

subsection \<open>convertAllPages\<close>

text \<open>
  \<open>convertAllPages_begin\<close> is the part of \<open>convertAllPages\<close> between the guard and the
  loop. \<open>attempt\<close> is one turn of the loop for page \<open>i\<close>: it runs when the \<open>await\<close> of
  \<open>convertPageToImage\<close> settles, with the \<open>file\<close>, \<open>settings\<close> and \<open>total\<close> the run
  captured when it started, on the session as it is at that moment (\<open>setImages\<close> is
  given an updater of the previous value). The local array \<open>results\<close> is never read and
  is left out.
\<close>

definition convertAllPages_begin :: "session \<Rightarrow> session" where
  "convertAllPages_begin s = s\<lparr>isProcessing := True, images := []\<rparr>"

definition attempt ::
  "('doc, 'page, 'surface) platform \<Rightarrow> File \<Rightarrow> ConversionSettings \<Rightarrow> nat \<Rightarrow> nat
     \<Rightarrow> session \<Rightarrow> session" where
  "attempt P f st n i s =
     (let s0 = s\<lparr>renderCalls := renderCalls s @ [i]\<rparr> in
      case convertPageToImage P f i st of
        Inr img \<Rightarrow> setProgress (progress_of i n) (s0\<lparr>images := images s0 @ [img]\<rparr>)
      | Inl err \<Rightarrow> console_error (FailedToConvertPage i err) s0)"

function convert_loop ::
  "('doc, 'page, 'surface) platform \<Rightarrow> File \<Rightarrow> ConversionSettings \<Rightarrow> nat \<Rightarrow> nat
     \<Rightarrow> session \<Rightarrow> session" where
  "convert_loop P f st n i s =
     (if i \<le> n then convert_loop P f st n (Suc i) (attempt P f st n i s) else s)"
  by pat_completeness auto
termination
  by (relation "measure (\<lambda>(P, f, st, n, i, s). Suc n - i)") auto

declare convert_loop.simps [simp del]

text \<open>The session after each turn of the loop, in order.\<close>

function convert_trace ::
  "('doc, 'page, 'surface) platform \<Rightarrow> File \<Rightarrow> ConversionSettings \<Rightarrow> nat \<Rightarrow> nat
     \<Rightarrow> session \<Rightarrow> session list" where
  "convert_trace P f st n i s =
     (if i \<le> n
      then attempt P f st n i s # convert_trace P f st n (Suc i) (attempt P f st n i s)
      else [])"
  by pat_completeness auto
termination
  by (relation "measure (\<lambda>(P, f, st, n, i, s). Suc n - i)") auto

declare convert_trace.simps [simp del]

definition convertAllPages ::
  "('doc, 'page, 'surface) platform \<Rightarrow> session \<Rightarrow> session" where
  "convertAllPages P s =
     (case file_state s of
        None \<Rightarrow> s
      | Some f \<Rightarrow>
          (case metadata s of
             None \<Rightarrow> s
           | Some m \<Rightarrow>
               (convert_loop P f (settings s) (totalPages m) 1 (convertAllPages_begin s))
                 \<lparr>isProcessing := False\<rparr>))"

text \<open>
  \<open>page_renders\<close>: whether the render of page \<open>k\<close> succeeds; \<open>page_images\<close>: the images of
  the pages of \<open>ks\<close> that render, in the order of \<open>ks\<close>; \<open>page_failures\<close>: the lines logged
  for those that do not.
\<close>

definition page_renders ::
  "('doc, 'page, 'surface) platform \<Rightarrow> File \<Rightarrow> ConversionSettings \<Rightarrow> nat \<Rightarrow> bool" where
  "page_renders P f st k = (case convertPageToImage P f k st of Inr img \<Rightarrow> True | Inl e \<Rightarrow> False)"

definition page_images ::
  "('doc, 'page, 'surface) platform \<Rightarrow> File \<Rightarrow> ConversionSettings \<Rightarrow> nat list
     \<Rightarrow> ConvertedImage list" where
  "page_images P f st ks =
     concat (map (\<lambda>k. case convertPageToImage P f k st of Inr img \<Rightarrow> [img] | Inl e \<Rightarrow> []) ks)"

definition page_failures ::
  "('doc, 'page, 'surface) platform \<Rightarrow> File \<Rightarrow> ConversionSettings \<Rightarrow> nat list
     \<Rightarrow> log_entry list" where
  "page_failures P f st ks =
     concat (map (\<lambda>k. case convertPageToImage P f k st of
                          Inr img \<Rightarrow> [] | Inl e \<Rightarrow> [FailedToConvertPage k e]) ks)"

text \<open>
  Every session a run of \<open>convertAllPages\<close> goes through: after the reset, after each
  turn of the loop, and after the final \<open>setIsProcessing(false)\<close>.
\<close>

definition convertAllPages_states ::
  "('doc, 'page, 'surface) platform \<Rightarrow> session \<Rightarrow> session list" where
  "convertAllPages_states P s =
     (case file_state s of
        None \<Rightarrow> [s]
      | Some f \<Rightarrow>
          (case metadata s of
             None \<Rightarrow> [s]
           | Some m \<Rightarrow>
               convertAllPages_begin s
                 # convert_trace P f (settings s) (totalPages m) 1 (convertAllPages_begin s)
                 @ [convertAllPages P s]))"

subsection \<open>clearAll and the settings controls\<close>

definition clearAll :: "session \<Rightarrow> session" where
  "clearAll s =
     setProgress 0 (s\<lparr>file_state := None, metadata := None, images := [], aiInsights := JNull\<rparr>)"

definition setFormat :: "image_format \<Rightarrow> session \<Rightarrow> session" where
  "setFormat v s = s\<lparr>settings := (settings s)\<lparr>format := v\<rparr>\<rparr>"

definition setScale :: "rat \<Rightarrow> session \<Rightarrow> session" where
  "setScale v s = s\<lparr>settings := (settings s)\<lparr>scale := v\<rparr>\<rparr>"

definition setQuality :: "rat \<Rightarrow> session \<Rightarrow> session" where
  "setQuality v s = s\<lparr>settings := (settings s)\<lparr>quality := v\<rparr>\<rparr>"

subsection \<open>Downloads\<close>

text \<open>\<open>str.replace(pat, rep)\<close> with a string pattern replaces its first occurrence.\<close>

fun replace_first :: "string \<Rightarrow> string \<Rightarrow> string \<Rightarrow> string" where
  "replace_first pat rep [] = (if pat = [] then rep else [])"
| "replace_first pat rep (c # cs) =
     (if take (length pat) (c # cs) = pat then rep @ drop (length pat) (c # cs)
      else c # replace_first pat rep cs)"

text \<open>
  Reading a property: only an object has properties of its own, and \<open>?.\<close> gives
  \<open>undefined\<close> (\<open>None\<close>) on \<open>null\<close>. \<open>js_truthy\<close>: what \<open>||\<close> takes for true. \<open>js_string\<close>:
  the text a template literal inserts for a value.
\<close>

definition get_property :: "json \<Rightarrow> string \<Rightarrow> json option" where
  "get_property v k = (case v of JObject props \<Rightarrow> map_of props k | _ \<Rightarrow> None)"

fun js_truthy :: "json \<Rightarrow> bool" where
  "js_truthy JNull = False"
| "js_truthy (JBool b) = b"
| "js_truthy (JNumber (Finite x)) = (x \<noteq> 0)"
| "js_truthy (JNumber PosInfinity) = True"
| "js_truthy (JNumber NegInfinity) = True"
| "js_truthy (JString str) = (str \<noteq> [])"
| "js_truthy (JArray xs) = True"
| "js_truthy (JObject props) = True"

definition js_string :: "('doc, 'page, 'surface) platform \<Rightarrow> json \<Rightarrow> string" where
  "js_string P v = (case v of JString str \<Rightarrow> str | _ \<Rightarrow> String_of P v)"

text \<open>
  \<open>aiInsights?.suggestedFileName || metadata?.name.replace('.pdf', '') || 'pdf_export'\<close>,
  as the text the template literals of the downloads insert for it: \<open>undefined\<close> and
  every value that is not truthy (the empty string among them) fall through \<open>||\<close>.
\<close>

definition folderName :: "('doc, 'page, 'surface) platform \<Rightarrow> session \<Rightarrow> string" where
  "folderName P s =
     (let a = get_property (aiInsights s) ''suggestedFileName'';
          b = (case metadata s of None \<Rightarrow> [] | Some m \<Rightarrow> replace_first ''.pdf'' [] (name m))
      in case a of
           Some v \<Rightarrow>
             if js_truthy v then js_string P v else if b \<noteq> [] then b else ''pdf_export''
         | None \<Rightarrow> if b \<noteq> [] then b else ''pdf_export'')"

definition entry_name :: "string \<Rightarrow> ConvertedImage \<Rightarrow> ConversionSettings \<Rightarrow> string" where
  "entry_name folder img st =
     folder @ ''_page_'' @ show_nat (pageNumber img) @ ''.'' @ format_str (format st)"

text \<open>
  A \<open>JSZip\<close> archive is the list of its entries by name; \<open>zip.file(name, data)\<close> replaces
  the entry of that name or adds one at the end. \<open>downloadAllAsZip\<close> gives the name of
  the download and the entries of the archive, or nothing when it returns early.
\<close>

definition zip_file :: "string \<Rightarrow> 'a \<Rightarrow> (string \<times> 'a) list \<Rightarrow> (string \<times> 'a) list" where
  "zip_file nm d z = AList.update nm d z"

definition downloadAllAsZip ::
  "('doc, 'page, 'surface) platform \<Rightarrow> session
     \<Rightarrow> (string \<times> (string \<times> bytes option) list) option" where
  "downloadAllAsZip P s =
     (if length (images s) = 0 then None
      else Some (folderName P s @ ''.zip'',
                 fold (\<lambda>img. zip_file (entry_name (folderName P s) img (settings s)) (blob img))
                   (images s) []))"

definition downloadSingle ::
  "('doc, 'page, 'surface) platform \<Rightarrow> ConvertedImage \<Rightarrow> session \<Rightarrow> string \<times> string" where
  "downloadSingle P img s = (entry_name (folderName P s) img (settings s), dataUrl img)"

section \<open>Data URLs\<close>

text \<open>
  What a \<open>data:\<close> URL with a base64 payload (RFC 2397, RFC 4648) decodes to: the bytes a
  consumer of \<open>dataUrl\<close> reads.
\<close>

definition b64_val :: "char \<Rightarrow> nat option" where
  "b64_val c =
     (let n = (of_char c :: nat) in
      if 65 \<le> n \<and> n \<le> 90 then Some (n - 65)
      else if 97 \<le> n \<and> n \<le> 122 then Some (n - 71)
      else if 48 \<le> n \<and> n \<le> 57 then Some (n + 4)
      else if n = 43 then Some 62
      else if n = 47 then Some 63
      else None)"

fun b64_decode :: "string \<Rightarrow> bytes option" where
  "b64_decode [] = Some []"
| "b64_decode (a # b # c # d # rest) =
     (case (b64_val a, b64_val b) of
        (Some x, Some y) \<Rightarrow>
          if rest = [] \<and> c = CHR ''='' \<and> d = CHR ''='' then Some [x * 4 + y div 16]
          else
            (case b64_val c of
               None \<Rightarrow> None
             | Some z \<Rightarrow>
                 if rest = [] \<and> d = CHR ''=''
                 then Some [x * 4 + y div 16, (y mod 16) * 16 + z div 4]
                 else
                   (case (b64_val d, b64_decode rest) of
                      (Some w, Some tl_bytes) \<Rightarrow>
                        Some ([x * 4 + y div 16, (y mod 16) * 16 + z div 4,
                               (z mod 4) * 64 + w] @ tl_bytes)
                    | _ \<Rightarrow> None))
      | _ \<Rightarrow> None)"
| "b64_decode _ = None"

definition decode_data_url :: "string \<Rightarrow> bytes option" where
  "decode_data_url u =
     (let header = takeWhile (\<lambda>c. c \<noteq> CHR '','') u;
          payload = drop (Suc (length header)) u
      in if take 5 header = ''data:'' \<and> 12 \<le> length header
            \<and> drop (length header - 7) header = '';base64''
         then b64_decode payload else None)"

section \<open>Sample documents and platforms\<close>

text \<open>
  Concrete inputs for the statements below. \<open>sample_platform n bad\<close> opens every file as a
  document of \<open>n\<close> US Letter pages, fails to render the pages listed in \<open>bad\<close>, and
  encodes every canvas as the one byte 0. Its remote model answers \<open>sample_response\<close>.
  \<open>sample_parse\<close> is \<open>JSON.parse\<close> on the texts the samples use (every other text used is
  not JSON), and \<open>sample_String_of\<close> the string conversion of \<open>null\<close>, booleans, natural
  numbers, the empty array and objects.
\<close>

definition quoted :: "string \<Rightarrow> string" where
  "quoted str = [CHR 0x22] @ str @ [CHR 0x22]"

definition sample_response :: string where
  "sample_response =
     ''{'' @ quoted ''summary'' @ '':'' @ quoted ''An annual report.'' @ '',''
       @ quoted ''keywords'' @ '':['' @ quoted ''report'' @ ''],''
       @ quoted ''suggestedFileName'' @ '':'' @ quoted ''report'' @ ''}''"

definition sample_insights :: json where
  "sample_insights =
     insights_value \<lparr>summary = ''An annual report.'', keywords_ai = [''report''],
                      suggestedFileName = ''report''\<rparr>"

definition sample_parse :: "string \<Rightarrow> js_error + json" where
  "sample_parse t =
     (if t = ''null'' then Inr JNull
      else if t = ''{}'' then Inr (JObject [])
      else if t = quoted ''oops'' then Inr (JString ''oops'')
      else if t = sample_response then Inr sample_insights
      else Inl (JsError ''SyntaxError''))"

fun sample_String_of :: "json \<Rightarrow> string" where
  "sample_String_of JNull = ''null''"
| "sample_String_of (JBool b) = (if b then ''true'' else ''false'')"
| "sample_String_of (JNumber (Finite x)) = show_nat (nat \<lfloor>x\<rfloor>)"
| "sample_String_of (JNumber PosInfinity) = ''Infinity''"
| "sample_String_of (JNumber NegInfinity) = ''-Infinity''"
| "sample_String_of (JString str) = str"
| "sample_String_of (JArray xs) = []"
| "sample_String_of (JObject props) = ''[object Object]''"

definition sample_file :: "string \<Rightarrow> string \<Rightarrow> File" where
  "sample_file nm ty = \<lparr>name_file = nm, size_file = 4, type_file = ty, data_file = [37, 80, 68, 70]\<rparr>"

definition sample_platform :: "nat \<Rightarrow> nat list \<Rightarrow> (unit, nat, nat) platform" where
  "sample_platform n bad =
     \<lparr>arrayBuffer = (\<lambda>f. Inr (data_file f)),
      getDocument = (\<lambda>b. Inr ()),
      numPages = (\<lambda>d. n),
      getPage = (\<lambda>d k. if 1 \<le> k \<and> k \<le> n then Inr k else Inl (JsError ''Invalid page request'')),
      getViewport = (\<lambda>k sc. (612 * sc, 792 * sc)),
      getContext2d = True,
      render = (\<lambda>k v c. if k \<in> set bad then Inl (JsError ''Rendering failed'') else Inr k),
      toDataURL = (\<lambda>c m q. ''data:'' @ m @ '';base64,AA==''),
      toBlob = (\<lambda>c m q. Some [0]),
      now = (\<lambda>k. 1000 + k),
      getTextContent = (\<lambda>k. Inr [''Annual'', ''report'']),
      generateContent = (\<lambda>m p. Some (Inr (Some sample_response))),
      JSON_parse = sample_parse,
      String_of = sample_String_of\<rparr>"

definition sample_settings :: ConversionSettings where
  "sample_settings = \<lparr>format = png, scale = 2, quality = 92 / 100\<rparr>"

text \<open>The session of a freshly mounted \<open>App\<close>.\<close>

definition initial_session :: session where
  "initial_session =
     \<lparr>file_state = None, metadata = None, settings = sample_settings, images = [],
      isProcessing = False, progress = 0, aiInsights = JNull, isAnalyzing = False,
      console = [], renderCalls = [], progressCalls = []\<rparr>"





text \<open>The session after the sample document was selected on a fresh \<open>App\<close>.\<close>

definition sample_session :: "nat \<Rightarrow> nat list \<Rightarrow> session" where
  "sample_session n bad =
     handleFileUpload (sample_platform n bad)
       (Some (sample_file ''report.pdf'' ''application/pdf'')) initial_session"

text \<open>A platform whose two canvas encoders give different bytes for the same canvas.\<close>

definition reencoding_platform :: "(unit, nat, nat) platform" where
  "reencoding_platform = (sample_platform 1 [])\<lparr>toBlob := (\<lambda>c m q. Some [1])\<rparr>"

text \<open>
  \<open>byte_platform\<close> opens a file of \<open>k\<close> bytes as a document of \<open>k\<close> pages and renders page
  \<open>i\<close> as the \<open>i\<close>-th byte of the file, so that an image tells which document it was made
  from. \<open>doc_a\<close> has two pages and \<open>doc_b\<close> one.
\<close>

definition b64_char :: "nat \<Rightarrow> char" where
  "b64_char n =
     (if n < 26 then char_of (65 + n)
      else if n < 52 then char_of (71 + n)
      else if n < 62 then char_of (n - 4)
      else if n = 62 then CHR ''+'' else CHR ''/'')"

definition byte_platform :: "(bytes, nat, nat) platform" where
  "byte_platform =
     \<lparr>arrayBuffer = (\<lambda>f. Inr (data_file f)),
      getDocument = (\<lambda>b. Inr b),
      numPages = length,
      getPage = (\<lambda>d k. if 1 \<le> k \<and> k \<le> length d then Inr (d ! (k - 1))
                        else Inl (JsError ''Invalid page request'')),
      getViewport = (\<lambda>p sc. (612 * sc, 792 * sc)),
      getContext2d = True,
      render = (\<lambda>p v c. Inr p),
      toDataURL = (\<lambda>c m q. ''data:'' @ m @ '';base64,''
                     @ [b64_char (c div 4), b64_char ((c mod 4) * 16), CHR ''='', CHR ''='']),
      toBlob = (\<lambda>c m q. Some [c]),
      now = (\<lambda>k. 1000 + k),
      getTextContent = (\<lambda>p. Inr []),
      generateContent = (\<lambda>m p. Some (Inr None)),
      JSON_parse = sample_parse,
      String_of = sample_String_of\<rparr>"

definition doc_a :: File where
  "doc_a = \<lparr>name_file = ''a.pdf'', size_file = 2, type_file = ''application/pdf'',
            data_file = [10, 11]\<rparr>"

definition doc_b :: File where
  "doc_b = \<lparr>name_file = ''b.pdf'', size_file = 1, type_file = ''application/pdf'',
            data_file = [20]\<rparr>"

text \<open>
  An interleaving of the handlers: \<open>doc_a\<close> is loaded and its conversion started; page 1
  settles (\<open>run_a_page1\<close>); while the run awaits page 2 the user clears the session and
  loads \<open>doc_b\<close> (\<open>session_b\<close>); then page 2 of the run of \<open>doc_a\<close> settles
  (\<open>session_b_later\<close>).
\<close>

definition session_a :: session where
  "session_a = handleFileUpload byte_platform (Some doc_a) initial_session"

definition run_a_page1 :: session where
  "run_a_page1 =
     attempt byte_platform doc_a (settings session_a) 2 1 (convertAllPages_begin session_a)"

definition session_b :: session where
  "session_b = handleFileUpload byte_platform (Some doc_b) (clearAll run_a_page1)"

definition session_b_later :: session where
  "session_b_later = attempt byte_platform doc_a (settings session_a) 2 2 session_b"

text \<open>The sample document converted to JPEG on the sample platform.\<close>

definition jpeg_session :: "nat \<Rightarrow> session" where
  "jpeg_session n = convertAllPages (sample_platform n []) (setFormat jpeg (sample_session n []))"

section \<open>Rounding to the nearest double\<close>

lemma bitlen_powi_bounds:
  assumes "0 < (p::int)"
  shows "2 powi (bitlen p - 1) \<le> (of_int p :: rat)" and "(of_int p :: rat) < 2 powi (bitlen p)"
proof -
  from assms have b: "1 \<le> bitlen p" by (simp add: bitlen_alt_def)
  from bitlen_bounds[OF assms] have lo: "2 ^ nat (bitlen p - 1) \<le> p" and hi: "p < 2 ^ nat (bitlen p)"
    by auto
  have "(2::rat) powi (bitlen p - 1) = 2 ^ nat (bitlen p - 1)"
    using b by (simp add: power_int_def)
  also have "\<dots> = of_int (2 ^ nat (bitlen p - 1))" by simp
  also have "\<dots> \<le> of_int p" using lo by (simp only: of_int_le_iff)
  finally show "2 powi (bitlen p - 1) \<le> (of_int p :: rat)" .
  have "(of_int p :: rat) < of_int (2 ^ nat (bitlen p))" using hi by (simp only: of_int_less_iff)
  also have "\<dots> = 2 ^ nat (bitlen p)" by simp
  also have "\<dots> = (2::rat) powi (bitlen p)" using b by (simp add: power_int_def)
  finally show "(of_int p :: rat) < 2 powi (bitlen p)" .
qed

lemma binade_bounds:
  assumes "0 < x"
  shows "2 powi (binade x) \<le> x \<and> x < 2 powi (binade x + 1)"
proof -
  obtain p q where pq: "quotient_of x = (p, q)" by (cases "quotient_of x")
  then have q: "0 < q" and x: "x = of_int p / of_int q"
    using quotient_of_denom_pos quotient_of_div by auto
  from assms x q have p: "0 < p" by (simp add: zero_less_divide_iff)
  define e where "e = bitlen p - bitlen q"
  note P = bitlen_powi_bounds[OF p] and Q = bitlen_powi_bounds[OF q]
  have qpos: "(0::rat) < of_int q" and ppos: "(0::rat) < of_int p" using q p by simp_all
  have two: "\<And>k. (0::rat) < 2 powi k" by simp
  have m: "0 < of_int q * (2::rat) powi (bitlen q - 1)"
    by (rule mult_pos_pos[OF qpos two])
  have "x \<le> of_int p / 2 powi (bitlen q - 1)"
    unfolding x by (rule divide_left_mono[OF Q(1) less_imp_le[OF ppos] m])
  also have "\<dots> < 2 powi (bitlen p) / 2 powi (bitlen q - 1)"
    using P(2) two[of "bitlen q - 1"] by (intro divide_strict_right_mono) auto
  also have "\<dots> = 2 powi (e + 1)"
    by (simp add: e_def power_int_diff power_int_add)
  finally have up: "x < 2 powi (e + 1)" .
  have ee: "e - 1 = (bitlen p - 1) - bitlen q" by (simp add: e_def)
  have "(2::rat) powi (e - 1) = 2 powi ((bitlen p - 1) - bitlen q)"
    by (simp only: ee)
  also have "\<dots> = 2 powi (bitlen p - 1) / 2 powi (bitlen q)"
    by (rule power_int_diff) simp
  also have "\<dots> \<le> of_int p / 2 powi (bitlen q)"
    using P(1) two[of "bitlen q"] by (intro divide_right_mono) auto
  also have "\<dots> < x"
    unfolding x using Q(2) ppos qpos two[of "bitlen q"]
    by (intro divide_strict_left_mono) (auto intro: mult_pos_pos)
  finally have lo: "2 powi (e - 1) < x" .
  have bd: "binade x = (if 2 powi e \<le> x then e else e - 1)"
    by (simp add: binade_def pq e_def Let_def)
  show ?thesis
  proof (cases "2 powi e \<le> x")
    case True
    then show ?thesis using up bd by simp
  next
    case False
    then show ?thesis using lo bd by simp
  qed
qed

lemma binade_mono:
  assumes "0 < x" "x \<le> y"
  shows "binade x \<le> binade y"
proof (rule ccontr)
  assume "\<not> binade x \<le> binade y"
  then have "binade y + 1 \<le> binade x" by simp
  then have "(2::rat) powi (binade y + 1) \<le> 2 powi (binade x)"
    by (intro power_int_increasing) auto
  moreover have "y < 2 powi (binade y + 1)" using binade_bounds[of y] assms by simp
  moreover have "2 powi (binade x) \<le> x" using binade_bounds[of x] assms by simp
  ultimately show False using assms by simp
qed

lemma round_even_of_int: "round_even (of_int k) = k"
  by (simp add: round_even_def)

lemma round_even_mono:
  assumes "x \<le> y"
  shows "round_even x \<le> round_even y"
proof -
  have fx: "round_even x \<le> \<lfloor>x\<rfloor> + 1"
    by (simp add: round_even_def Let_def)
  have fy: "\<lfloor>y\<rfloor> \<le> round_even y"
    by (simp add: round_even_def Let_def)
  show ?thesis
  proof (cases "\<lfloor>x\<rfloor> < \<lfloor>y\<rfloor>")
    case True
    then show ?thesis using fx fy by linarith
  next
    case False
    then have eq: "\<lfloor>x\<rfloor> = \<lfloor>y\<rfloor>" using assms floor_mono[of x y] by linarith
    then show ?thesis using assms
      by (auto simp add: round_even_def Let_def)
  qed
qed

lemma fl_pos_bounds:
  assumes "0 < x"
  shows "2 powi (binade x) \<le> fl x \<and> fl x \<le> 2 powi (binade x + 1)"
proof -
  define u :: rat where "u = 2 powi (binade x - 52)"
  have u: "0 < u" by (simp add: u_def)
  have fl: "fl x = of_int (round_even (x / u)) * u"
    using assms by (simp add: fl_def u_def Let_def)
  from binade_bounds[OF assms] have lo: "2 powi (binade x) \<le> x" and hi: "x < 2 powi (binade x + 1)"
    by simp_all
  have a: "2 powi (binade x) = of_int (2 ^ 52) * u"
    by (simp add: u_def power_int_diff)
  have b: "2 powi (binade x + 1) = of_int (2 ^ 53) * u"
    by (simp add: u_def power_int_diff power_int_add)
  have "of_int (2 ^ 52) \<le> x / u" using lo u a by (simp add: pos_le_divide_eq)
  then have "round_even (of_int (2 ^ 52)) \<le> round_even (x / u)" by (rule round_even_mono)
  then have l: "2 ^ 52 \<le> round_even (x / u)" by (simp only: round_even_of_int)
  have "x / u \<le> of_int (2 ^ 53)" using hi u b by (simp add: pos_divide_le_eq)
  then have "round_even (x / u) \<le> round_even (of_int (2 ^ 53))" by (rule round_even_mono)
  then have h: "round_even (x / u) \<le> 2 ^ 53" by (simp only: round_even_of_int)
  have l': "(of_int (2 ^ 52) :: rat) \<le> of_int (round_even (x / u))"
    using l by (subst of_int_le_iff)
  have h': "(of_int (round_even (x / u)) :: rat) \<le> of_int (2 ^ 53)"
    using h by (subst of_int_le_iff)
  have "of_int (2 ^ 52) * u \<le> of_int (round_even (x / u)) * u"
    by (rule mult_right_mono[OF l' less_imp_le[OF u]])
  moreover have "of_int (round_even (x / u)) * u \<le> of_int (2 ^ 53) * u"
    by (rule mult_right_mono[OF h' less_imp_le[OF u]])
  ultimately show ?thesis unfolding fl a b by simp
qed

lemma fl_mono_pos:
  assumes "0 < x" "x \<le> y"
  shows "fl x \<le> fl y"
proof -
  from assms have y: "0 < y" by simp
  from binade_mono[OF assms] consider "binade x = binade y" | "binade x + 1 \<le> binade y"
    by linarith
  then show ?thesis
  proof cases
    case 1
    define u :: rat where "u = 2 powi (binade x - 52)"
    have u: "0 < u" by (simp add: u_def)
    have "x / u \<le> y / u" using assms u by (simp add: divide_right_mono)
    then have "round_even (x / u) \<le> round_even (y / u)" by (rule round_even_mono)
    then have "of_int (round_even (x / u)) * u \<le> of_int (round_even (y / u)) * u"
      using u by (intro mult_right_mono) simp_all
    then show ?thesis using assms y 1 by (simp add: fl_def u_def Let_def)
  next
    case 2
    have "fl x \<le> 2 powi (binade x + 1)" using fl_pos_bounds[OF assms(1)] by simp
    also have "\<dots> \<le> 2 powi (binade y)" using 2 by (intro power_int_increasing) auto
    also have "\<dots> \<le> fl y" using fl_pos_bounds[OF y] by simp
    finally show ?thesis .
  qed
qed

lemma fl_pos: "0 < x \<Longrightarrow> 0 < fl x"
  using fl_pos_bounds[of x] zero_less_power_int[of "2::rat" "binade x"]
  by (simp del: zero_less_power_int)

lemma fl_one: "fl 1 = 1"
  by code_simp

lemma fl_hundred: "fl 100 = 100"
  by code_simp

lemma progress_of_mono:
  assumes "0 < i" "i \<le> j" "0 < n"
  shows "progress_of i n \<le> progress_of j n"
proof -
  have a: "(0::rat) < of_nat i / of_nat n" using assms by simp
  have "(of_nat i :: rat) / of_nat n \<le> of_nat j / of_nat n"
    using assms by (simp add: divide_right_mono)
  then have b: "fl (of_nat i / of_nat n) \<le> fl (of_nat j / of_nat n)"
    using a by (rule fl_mono_pos[rotated])
  have c: "0 < fl (of_nat i / of_nat n) * 100" using fl_pos[OF a] by simp
  have "fl (fl (of_nat i / of_nat n) * 100) \<le> fl (fl (of_nat j / of_nat n) * 100)"
    using b c by (intro fl_mono_pos) simp_all
  then show ?thesis
    unfolding progress_of_def Math_round_def by (intro floor_mono) simp
qed

lemma progress_of_full:
  assumes "0 < n"
  shows "progress_of n n = 100"
proof -
  have "(of_nat n :: rat) / of_nat n = 1" using assms by simp
  moreover have "\<lfloor>(100::rat) + 1 / 2\<rfloor> = 100" by (rule floor_unique) simp_all
  ultimately show ?thesis
    by (simp only: progress_of_def fl_one fl_hundred Math_round_def mult_1)
qed

section \<open>The conversion loop\<close>

lemma convertPageToImage_pageNumber:
  "convertPageToImage P f k st = Inr img \<Longrightarrow> pageNumber img = k"
  by (auto simp: convertPageToImage_def Let_def split: sum.splits if_splits)

lemma attempt_simps:
  "renderCalls (attempt P f st n i s) = renderCalls s @ [i]"
  "images (attempt P f st n i s) = images s @ page_images P f st [i]"
  "console (attempt P f st n i s) = console s @ page_failures P f st [i]"
  "progressCalls (attempt P f st n i s)
     = progressCalls s @ map (\<lambda>k. progress_of k n) (filter (page_renders P f st) [i])"
  "progress (attempt P f st n i s)
     = (if page_renders P f st i then progress_of i n else progress s)"
  "isProcessing (attempt P f st n i s) = isProcessing s"
  "file_state (attempt P f st n i s) = file_state s"
  "metadata (attempt P f st n i s) = metadata s"
  "settings (attempt P f st n i s) = settings s"
  "aiInsights (attempt P f st n i s) = aiInsights s"
  "isAnalyzing (attempt P f st n i s) = isAnalyzing s"
  by (simp_all add: attempt_def page_images_def page_failures_def page_renders_def
      setProgress_def console_error_def Let_def split: sum.splits)

lemma convert_loop_fold:
  "convert_loop P f st n i s = fold (attempt P f st n) [i..<Suc n] s"
proof (induction P f st n i s rule: convert_loop.induct)
  case (1 P f st n i s)
  show ?case
  proof (cases "i \<le> n")
    case True
    then have "[i..<Suc n] = i # [Suc i..<Suc n]" by (simp add: upt_conv_Cons)
    with True 1 show ?thesis by (simp add: convert_loop.simps[of P f st n i s])
  next
    case False
    then show ?thesis by (simp add: convert_loop.simps[of P f st n i s])
  qed
qed

lemma convert_trace_map:
  "convert_trace P f st n i s = map (\<lambda>j. fold (attempt P f st n) [i..<Suc j] s) [i..<Suc n]"
proof (induction P f st n i s rule: convert_trace.induct)
  case (1 P f st n i s)
  show ?case
  proof (cases "i \<le> n")
    case True
    then have u: "[i..<Suc n] = i # [Suc i..<Suc n]" by (simp add: upt_conv_Cons)
    have "map (\<lambda>j. fold (attempt P f st n) [i..<Suc j] s) [Suc i..<Suc n]
        = map (\<lambda>j. fold (attempt P f st n) [Suc i..<Suc j] (attempt P f st n i s)) [Suc i..<Suc n]"
      by (rule map_cong) (auto simp: upt_conv_Cons)
    with True 1 u show ?thesis by (simp add: convert_trace.simps[of P f st n i s])
  next
    case False
    then show ?thesis by (simp add: convert_trace.simps[of P f st n i s])
  qed
qed

lemma fold_attempt:
  "renderCalls (fold (attempt P f st n) ks s) = renderCalls s @ ks"
  "images (fold (attempt P f st n) ks s) = images s @ page_images P f st ks"
  "console (fold (attempt P f st n) ks s) = console s @ page_failures P f st ks"
  "progressCalls (fold (attempt P f st n) ks s)
     = progressCalls s @ map (\<lambda>k. progress_of k n) (filter (page_renders P f st) ks)"
  "isProcessing (fold (attempt P f st n) ks s) = isProcessing s"
  "file_state (fold (attempt P f st n) ks s) = file_state s"
  "metadata (fold (attempt P f st n) ks s) = metadata s"
  "settings (fold (attempt P f st n) ks s) = settings s"
  "aiInsights (fold (attempt P f st n) ks s) = aiInsights s"
  "isAnalyzing (fold (attempt P f st n) ks s) = isAnalyzing s"
  by (induction ks arbitrary: s; simp add: attempt_simps page_images_def page_failures_def)+

lemma fold_attempt_progress:
  "progress (fold (attempt P f st n) ks s)
     = (case rev (filter (page_renders P f st) ks) of [] \<Rightarrow> progress s | k # _ \<Rightarrow> progress_of k n)"
  by (induction ks arbitrary: s) (auto simp: attempt_simps split: list.splits)

lemma convertAllPages_fold:
  assumes "file_state s = Some f" "metadata s = Some m"
  shows "convertAllPages P s =
     (fold (attempt P f (settings s) (totalPages m)) [1..<Suc (totalPages m)]
        (convertAllPages_begin s))\<lparr>isProcessing := False\<rparr>"
  using assms by (simp add: convertAllPages_def convert_loop_fold)

lemma convertAllPages_begin_simps:
  "images (convertAllPages_begin s) = []"
  "progress (convertAllPages_begin s) = progress s"
  "progressCalls (convertAllPages_begin s) = progressCalls s"
  "renderCalls (convertAllPages_begin s) = renderCalls s"
  "console (convertAllPages_begin s) = console s"
  "settings (convertAllPages_begin s) = settings s"
  "file_state (convertAllPages_begin s) = file_state s"
  "metadata (convertAllPages_begin s) = metadata s"
  "isProcessing (convertAllPages_begin s) = True"
  by (simp_all add: convertAllPages_begin_def)

lemma convertAllPages_states_nth:
  assumes "file_state s = Some f" "metadata s = Some m" "i \<le> totalPages m"
  shows "convertAllPages_states P s ! i =
     fold (attempt P f (settings s) (totalPages m)) [1..<Suc i] (convertAllPages_begin s)"
proof (cases i)
  case 0
  then show ?thesis using assms by (simp add: convertAllPages_states_def)
next
  case (Suc j)
  with assms have j: "j < totalPages m" by simp
  have len: "length (convert_trace P f (settings s) (totalPages m) 1 (convertAllPages_begin s))
      = totalPages m"
    by (simp add: convert_trace_map)
  have "convertAllPages_states P s ! i
      = convert_trace P f (settings s) (totalPages m) 1 (convertAllPages_begin s) ! j"
    using assms Suc j len by (simp add: convertAllPages_states_def nth_append)
  also have "\<dots> = fold (attempt P f (settings s) (totalPages m)) [1..<Suc (Suc j)]
      (convertAllPages_begin s)"
    using j by (simp add: convert_trace_map del: upt_Suc)
  finally show ?thesis using Suc by simp
qed

lemma page_images_pageNumbers:
  "map pageNumber (page_images P f st ks) = filter (page_renders P f st) ks"
  by (induction ks)
    (auto simp: page_images_def page_renders_def convertPageToImage_pageNumber split: sum.splits)

lemma sorted_progress_of:
  assumes "0 < n"
  shows "sorted (map (\<lambda>i. progress_of i n) (filter p [1..<Suc n]))"
proof -
  have "sorted_wrt (<) (filter p [1..<Suc n])"
    by (rule sorted_wrt_filter) (rule sorted_wrt_upt)
  then have "sorted_wrt (\<lambda>i j. progress_of i n \<le> progress_of j n) (filter p [1..<Suc n])"
  proof (rule sorted_wrt_mono_rel[rotated])
    fix i j assume "i \<in> set (filter p [1..<Suc n])" "j \<in> set (filter p [1..<Suc n])" "i < j"
    then show "progress_of i n \<le> progress_of j n"
      using assms by (intro progress_of_mono) (auto simp del: upt_Suc)
  qed
  then show ?thesis by (simp add: sorted_map)
qed

lemma convertAllPages_fields:
  assumes "file_state s = Some f" "metadata s = Some m"
  shows "renderCalls (convertAllPages P s) = renderCalls s @ [1..<Suc (totalPages m)]"
    and "images (convertAllPages P s) = page_images P f (settings s) [1..<Suc (totalPages m)]"
    and "console (convertAllPages P s)
           = console s @ page_failures P f (settings s) [1..<Suc (totalPages m)]"
    and "isProcessing (convertAllPages P s) = False"
  by (simp_all add: convertAllPages_fold[OF assms] fold_attempt convertAllPages_begin_simps
      del: upt_Suc)

lemma page_failures_member:
  "k \<in> set ks \<Longrightarrow> convertPageToImage P f k st = Inl e
     \<Longrightarrow> FailedToConvertPage k e \<in> set (page_failures P f st ks)"
  by (induction ks) (auto simp: page_failures_def)

lemma filter_all_but:
  assumes "1 \<le> k" "k \<le> n" "\<not> p k" "\<forall>i. 1 \<le> i \<and> i \<le> n \<and> i \<noteq> k \<longrightarrow> p i"
  shows "filter p [1..<Suc n] = [1..<k] @ [Suc k..<Suc n]"
proof -
  have "[1..<k + (Suc n - k)] = [1..<k] @ [k..<k + (Suc n - k)]"
    using assms by (intro upt_add_eq_append) simp
  then have "[1..<Suc n] = [1..<k] @ [k..<Suc n]"
    using assms by simp
  also have "[k..<Suc n] = k # [Suc k..<Suc n]"
    using assms by (simp add: upt_conv_Cons)
  finally have "[1..<Suc n] = [1..<k] @ k # [Suc k..<Suc n]" .
  moreover have "filter p [1..<k] = [1..<k]"
    using assms by (intro filter_True) auto
  moreover have "filter p [Suc k..<Suc n] = [Suc k..<Suc n]"
    using assms by (intro filter_True) auto
  ultimately show ?thesis using assms by simp
qed

lemma convertPageToImage_dims:
  assumes "convertPageToImage P f k st = Inr img"
  shows "\<exists>buf pdf page. arrayBuffer P f = Inr buf \<and> getDocument P buf = Inr pdf \<and>
           getPage P pdf k = Inr page \<and>
           width img = canvas_dim (fst (getViewport P page (scale st))) \<and>
           height img = canvas_dim (snd (getViewport P page (scale st)))"
  using assms
  by (auto simp: convertPageToImage_def Let_def split: sum.splits if_splits)

lemma page_images_members:
  "img \<in> set (page_images P f st ks) \<Longrightarrow> convertPageToImage P f (pageNumber img) st = Inr img"
  by (induction ks)
    (auto simp: page_images_def convertPageToImage_pageNumber split: sum.splits)

lemma set_settings_simps:
  "images (setScale v s) = images s" "file_state (setScale v s) = file_state s"
  "metadata (setScale v s) = metadata s" "settings (setScale v s) = (settings s)\<lparr>scale := v\<rparr>"
  "images (setFormat fm s) = images s" "images (setQuality q s) = images s"
  by (simp_all add: setScale_def setFormat_def setQuality_def)

lemma handleFileUpload_rest_images:
  "images (handleFileUpload_rest P f s) = images s"
  "file_state (handleFileUpload_rest P f s) = file_state s"
  by (simp_all add: handleFileUpload_rest_def console_error_def Let_def
      split: sum.splits prod.splits option.splits)

lemma handleFileUpload_sync_images:
  "images (handleFileUpload_sync f s) = []"
  "file_state (handleFileUpload_sync f s) = Some f"
  by (simp_all add: handleFileUpload_sync_def setProgress_def)

lemma convertPageToImage_encodings:
  assumes "convertPageToImage P f k st = Inr img"
  shows "\<exists>canvas. dataUrl img = toDataURL P canvas (''image/'' @ format_str (format st)) (quality st)
           \<and> blob img = toBlob P canvas (''image/'' @ format_str (format st)) (quality st)"
  using assms
  by (auto simp: convertPageToImage_def Let_def split: sum.splits if_splits)

section \<open>Archive entries\<close>

lemma digit_char_inj:
  assumes "a < 10" "b < 10" "digit_char a = digit_char b"
  shows "a = b"
proof -
  from assms(3) have "of_char (digit_char a) = (of_char (digit_char b) :: nat)" by simp
  then have "(48 + a) mod 256 = (48 + b) mod 256"
    by (simp add: digit_char_def)
  with assms(1,2) show ?thesis by simp
qed

lemma show_nat_nonempty: "show_nat n \<noteq> []"
  by (subst show_nat.simps) simp

lemma show_nat_inj: "show_nat a = show_nat b \<Longrightarrow> a = b"
proof (induction a arbitrary: b rule: show_nat.induct)
  case (1 n)
  show ?case
  proof (cases "n < 10")
    case True
    then have n: "show_nat n = [digit_char n]" by (subst show_nat.simps) simp
    show ?thesis
    proof (cases "b < 10")
      case b: True
      then have "show_nat b = [digit_char b]" by (subst show_nat.simps) simp
      with n 1(2) True b show ?thesis by (auto dest: digit_char_inj)
    next
      case False
      then have "show_nat b = show_nat (b div 10) @ [digit_char (b mod 10)]"
        by (subst show_nat.simps) simp
      with n 1(2) show_nat_nonempty[of "b div 10"] show ?thesis by simp
    qed
  next
    case False
    then have n: "show_nat n = show_nat (n div 10) @ [digit_char (n mod 10)]"
      by (subst show_nat.simps) simp
    show ?thesis
    proof (cases "b < 10")
      case True
      then have "show_nat b = [digit_char b]" by (subst show_nat.simps) simp
      with n 1(2) show_nat_nonempty[of "n div 10"] show ?thesis by simp
    next
      case b: False
      then have "show_nat b = show_nat (b div 10) @ [digit_char (b mod 10)]"
        by (subst show_nat.simps) simp
      with n 1(2) have e: "show_nat (n div 10) = show_nat (b div 10)"
        and d: "digit_char (n mod 10) = digit_char (b mod 10)" by simp_all
      from 1(1)[OF False e] have "n div 10 = b div 10" .
      moreover from d have "n mod 10 = b mod 10" by (intro digit_char_inj) simp_all
      ultimately show ?thesis by (metis div_mult_mod_eq)
    qed
  qed
qed

lemma entry_name_inj:
  "entry_name folder a st = entry_name folder b st \<Longrightarrow> pageNumber a = pageNumber b"
  by (simp add: entry_name_def show_nat_inj)

lemma zip_file_fresh:
  "nm \<notin> fst ` set z \<Longrightarrow> zip_file nm d z = z @ [(nm, d)]"
  by (induction z) (auto simp: zip_file_def)

lemma fold_zip_file:
  assumes "distinct (map pageNumber imgs)"
    and "\<forall>img \<in> set imgs. entry_name folder img st \<notin> fst ` set z"
  shows "fold (\<lambda>img. zip_file (entry_name folder img st) (blob img)) imgs z
           = z @ map (\<lambda>img. (entry_name folder img st, blob img)) imgs"
  using assms
proof (induction imgs arbitrary: z)
  case Nil
  then show ?case by simp
next
  case (Cons a imgs)
  have fresh: "zip_file (entry_name folder a st) (blob a) z = z @ [(entry_name folder a st, blob a)]"
    using Cons.prems(2) by (intro zip_file_fresh) simp
  have "\<forall>img \<in> set imgs. entry_name folder img st
          \<notin> fst ` set (z @ [(entry_name folder a st, blob a)])"
  proof
    fix img assume i: "img \<in> set imgs"
    from Cons.prems(1) have "pageNumber a \<notin> set (map pageNumber imgs)" by simp
    moreover from i have "pageNumber img \<in> set (map pageNumber imgs)" by simp
    ultimately have "pageNumber img \<noteq> pageNumber a" by metis
    then have "entry_name folder img st \<noteq> entry_name folder a st"
      using entry_name_inj by blast
    with Cons.prems(2) i show "entry_name folder img st
          \<notin> fst ` set (z @ [(entry_name folder a st, blob a)])" by auto
  qed
  with Cons.IH[of "z @ [(entry_name folder a st, blob a)]"] Cons.prems(1) fresh
  show ?case by simp
qed

section \<open>The sample platform\<close>

lemma sample_session_loaded:
  "file_state (sample_session n bad) = Some (sample_file ''report.pdf'' ''application/pdf'')"
  "metadata (sample_session n bad) = Some \<lparr>name = ''report.pdf'', size_pdf = 4, totalPages = n\<rparr>"
  "settings (sample_session n bad) = sample_settings"
  "images (sample_session n bad) = []"
  "progress (sample_session n bad) = 0"
  "progressCalls (sample_session n bad) = [0]"
  "renderCalls (sample_session n bad) = []"
  by (auto simp add: sample_session_def handleFileUpload_def handleFileUpload_rest_def
      handleFileUpload_sync_def sample_file_def sample_platform_def getPDFMetadata_def
      extractTextFromFirstPage_def analyzePDFContent_def analyze_try_def
      initial_session_def setProgress_def console_error_def
      split: sum.splits option.splits)

lemma sample_convertPageToImage:
  "convertPageToImage (sample_platform n bad) (sample_file nm ty) k st =
     (if 1 \<le> k \<and> k \<le> n
      then if k \<in> set bad then Inl (JsError ''Rendering failed'')
           else Inr \<lparr>id_img = ''p-'' @ show_nat k @ ''-'' @ show_nat (1000 + k), pageNumber = k,
                     dataUrl = ''data:image/'' @ format_str (format st) @ '';base64,AA=='',
                     blob = Some [0],
                     width = canvas_dim (612 * scale st), height = canvas_dim (792 * scale st)\<rparr>
      else Inl (JsError ''Invalid page request''))"
  by (simp add: convertPageToImage_def sample_platform_def sample_file_def Let_def)

lemma sample_page_renders:
  "page_renders (sample_platform n bad) (sample_file nm ty) st k
     \<longleftrightarrow> 1 \<le> k \<and> k \<le> n \<and> k \<notin> set bad"
  by (auto simp add: page_renders_def sample_convertPageToImage)

lemma progress_of_samples:
  "progress_of (Suc 0) 3 = 33" "progress_of 1 3 = 33" "progress_of 3 3 = 100"
  by code_simp+

lemma converted_sample_loaded:
  "file_state (convertAllPages (sample_platform 2 []) (sample_session 2 []))
     = Some (sample_file ''report.pdf'' ''application/pdf'')"
  "metadata (convertAllPages (sample_platform 2 []) (sample_session 2 []))
     = Some \<lparr>name = ''report.pdf'', size_pdf = 4, totalPages = 2\<rparr>"
  by (simp_all add: convertAllPages_fold[OF sample_session_loaded(1) sample_session_loaded(2)]
      fold_attempt convertAllPages_begin_simps sample_session_loaded del: upt_Suc)

lemma jpeg_session_1_images: "images (jpeg_session 1) = [\<lparr>id_img = ''p-1-1001'', pageNumber = 1,
          dataUrl = ''data:image/jpeg;base64,AA=='', blob = Some [0],
          width = 1224, height = 1584\<rparr>]"
  by code_simp

lemma jpeg_session_1_folderName: "folderName (sample_platform 1 []) (jpeg_session 1) = ''report''"
  by code_simp

lemma jpeg_session_1_settings: "settings (jpeg_session 1) = \<lparr>format = jpeg, scale = 2, quality = 92 / 100\<rparr>"
  by code_simp

lemma show_nat_samples: "show_nat (Suc 0) = ''1''" "show_nat 1 = ''1''" "show_nat 2 = ''2''"
  by code_simp+

lemma jpeg_session_facts:
  "map pageNumber (images (jpeg_session 2)) = [1..<Suc 2]"
  "folderName (sample_platform 2 []) (jpeg_session 2) = ''report''"
  "format (settings (jpeg_session 2)) = jpeg"
  by code_simp+

section \<open>Insight generation\<close>




section \<open>File selection\<close>

text \<open>
  C10. A selected file whose MIME type is not \<open>application/pdf\<close> is ignored: the handler
  returns the session as it was (file, metadata, images, insights, progress and every
  other cell), and nothing is loaded or logged.
\<close>

theorem handleFileUpload_ignores_non_pdf:
  "type_file f \<noteq> ''application/pdf'' \<Longrightarrow> handleFileUpload P (Some f) s = s"
  by (simp add: handleFileUpload_def)

theorem handleFileUpload_ignores_non_pdf_witness:
  "type_file (sample_file ''notes.txt'' ''text/plain'') \<noteq> ''application/pdf'' \<and>
   handleFileUpload (sample_platform 2 []) (Some (sample_file ''notes.txt'' ''text/plain''))
       (convertAllPages (sample_platform 2 [])
          (handleFileUpload (sample_platform 2 [])
             (Some (sample_file ''report.pdf'' ''application/pdf'')) initial_session))
     = convertAllPages (sample_platform 2 [])
          (handleFileUpload (sample_platform 2 [])
             (Some (sample_file ''report.pdf'' ''application/pdf'')) initial_session)"
proof -
  have h: "type_file (sample_file ''notes.txt'' ''text/plain'') \<noteq> ''application/pdf''"
    by (simp add: sample_file_def)
  from h handleFileUpload_ignores_non_pdf [OF h] show ?thesis
    by simp
qed

section \<open>Progress during a run\<close>

text \<open>
  C1 (as amended). During \<open>convertAllPages\<close> over a document of \<open>N\<close> pages, after the
  attempt of page \<open>i\<close> the progress is \<open>Math.round((i / N) * 100)\<close> when the render
  succeeded, and is what it was before the attempt when the render failed (nothing is
  published for a failed page). The values published during the run are non-decreasing,
  and the progress ends at 100 when the render of the last page succeeds.
  \<open>convertAllPages_states P s ! i\<close> is the session after the attempt of page \<open>i\<close>, and
  \<open>convertAllPages_states P s ! 0\<close> the session after the reset.
\<close>

theorem convertAllPages_progress:
  assumes "file_state s = Some f" and "metadata s = Some m"
  shows "(\<forall>i. 1 \<le> i \<and> i \<le> totalPages m \<longrightarrow>
            progress (convertAllPages_states P s ! i) =
              (if page_renders P f (settings s) i then progress_of i (totalPages m)
               else progress (convertAllPages_states P s ! (i - 1)))) \<and>
         progressCalls (convertAllPages P s) =
           progressCalls s @ map (\<lambda>i. progress_of i (totalPages m))
             (filter (page_renders P f (settings s)) [1..<Suc (totalPages m)]) \<and>
         sorted (map (\<lambda>i. progress_of i (totalPages m))
             (filter (page_renders P f (settings s)) [1..<Suc (totalPages m)])) \<and>
         (0 < totalPages m \<and> page_renders P f (settings s) (totalPages m) \<longrightarrow>
            progress (convertAllPages P s) = 100)"
proof (intro conjI allI impI)
  fix i assume i: "1 \<le> i \<and> i \<le> totalPages m"
  then obtain j where j: "i = Suc j" by (cases i) auto
  have a: "convertAllPages_states P s ! i =
      attempt P f (settings s) (totalPages m) i (convertAllPages_states P s ! (i - 1))"
    using i j convertAllPages_states_nth[OF assms, of i P]
      convertAllPages_states_nth[OF assms, of j P]
    by simp
  show "progress (convertAllPages_states P s ! i) =
              (if page_renders P f (settings s) i then progress_of i (totalPages m)
               else progress (convertAllPages_states P s ! (i - 1)))"
    by (subst a) (simp add: attempt_simps)
next
  show "progressCalls (convertAllPages P s) =
           progressCalls s @ map (\<lambda>i. progress_of i (totalPages m))
             (filter (page_renders P f (settings s)) [1..<Suc (totalPages m)])"
    by (simp add: convertAllPages_fold[OF assms] fold_attempt convertAllPages_begin_simps
        del: upt_Suc)
next
  show "sorted (map (\<lambda>i. progress_of i (totalPages m))
             (filter (page_renders P f (settings s)) [1..<Suc (totalPages m)]))"
  proof (cases "totalPages m")
    case 0
    then show ?thesis by simp
  next
    case (Suc k)
    then show ?thesis using sorted_progress_of[of "totalPages m"] by simp
  qed
next
  assume h: "0 < totalPages m \<and> page_renders P f (settings s) (totalPages m)"
  then have "[1..<Suc (totalPages m)] = [1..<totalPages m] @ [totalPages m]"
    by simp
  then have "rev (filter (page_renders P f (settings s)) [1..<Suc (totalPages m)])
      = totalPages m # rev (filter (page_renders P f (settings s)) [1..<totalPages m])"
    using h by (simp del: upt_Suc)
  then show "progress (convertAllPages P s) = 100"
    using h
    by (simp add: convertAllPages_fold[OF assms] fold_attempt_progress progress_of_full
        del: upt_Suc)
qed

theorem convertAllPages_progress_witness:
  "file_state (sample_session 3 [2]) = Some (sample_file ''report.pdf'' ''application/pdf'') \<and>
   metadata (sample_session 3 [2]) = Some \<lparr>name = ''report.pdf'', size_pdf = 4, totalPages = 3\<rparr> \<and>
   progress (convertAllPages_states (sample_platform 3 [2]) (sample_session 3 [2]) ! 1) = 33 \<and>
   progress (convertAllPages_states (sample_platform 3 [2]) (sample_session 3 [2]) ! 2) =
     progress (convertAllPages_states (sample_platform 3 [2]) (sample_session 3 [2]) ! 1) \<and>
   progressCalls (convertAllPages (sample_platform 3 [2]) (sample_session 3 [2])) = [0, 33, 100] \<and>
   progress (convertAllPages (sample_platform 3 [2]) (sample_session 3 [2])) = 100"
proof -
  note f = sample_session_loaded(1) [of 3 "[2]"]
  note m = sample_session_loaded(2) [of 3 "[2]"]
  note T = convertAllPages_progress [OF f m, where P = "sample_platform 3 [2]"]
  have r: "filter (page_renders (sample_platform 3 [2])
             (sample_file ''report.pdf'' ''application/pdf'') sample_settings) [1..<Suc 3] = [1, 3]"
    by (simp add: upt_rec sample_page_renders)
  have s1: "progress (convertAllPages_states (sample_platform 3 [2]) (sample_session 3 [2]) ! 1) = 33"
    using T [THEN conjunct1, rule_format, of 1]
    by (simp add: sample_session_loaded sample_page_renders progress_of_samples)
  have s2: "progress (convertAllPages_states (sample_platform 3 [2]) (sample_session 3 [2]) ! 2) =
      progress (convertAllPages_states (sample_platform 3 [2]) (sample_session 3 [2]) ! 1)"
    using T [THEN conjunct1, rule_format, of 2]
    by (simp add: sample_session_loaded sample_page_renders)
  have pc: "progressCalls (convertAllPages (sample_platform 3 [2]) (sample_session 3 [2]))
      = [0, 33, 100]"
    using T [THEN conjunct2, THEN conjunct1] r
    by (simp add: sample_session_loaded progress_of_samples del: upt_Suc)
  have fin: "progress (convertAllPages (sample_platform 3 [2]) (sample_session 3 [2])) = 100"
    using T [THEN conjunct2, THEN conjunct2, THEN conjunct2]
    by (simp add: sample_session_loaded sample_page_renders)
  from f m s1 s2 pc fin show ?thesis by simp
qed

text \<open>
  A document of two pages whose second page fails to render: after the attempt of page 2
  the progress is still 50, not \<open>Math.round((2 / 2) * 100) = 100\<close>, and the run ends at 50.
\<close>

theorem convertAllPages_progress_counterexample:
  "progress (convertAllPages_states (sample_platform 2 [2]) (sample_session 2 [2]) ! 2) = 50 \<and>
   progress_of 2 2 = 100 \<and>
   progress (convertAllPages (sample_platform 2 [2]) (sample_session 2 [2])) = 50"
  by code_simp

section \<open>Order of the attempts and failed pages\<close>

text \<open>
  C2. \<open>convertAllPages\<close> over a document of \<open>N\<close> pages calls the rasterizer for the pages
  \<open>1, 2, \<dots>, N\<close>, each once and in this order, whatever the outcomes; each failure is
  logged and the loop goes on; the run ends with \<open>isProcessing = false\<close>. If page \<open>k\<close>
  fails and every other page renders, the final images are \<open>N - 1\<close>, their page numbers
  are \<open>1, \<dots>, k - 1, k + 1, \<dots>, N\<close> in increasing order (page \<open>k\<close> is not among them),
  and the failure of page \<open>k\<close> is in the log.
\<close>

theorem convertAllPages_attempts_every_page:
  assumes "file_state s = Some f" and "metadata s = Some m"
  shows "renderCalls (convertAllPages P s) = renderCalls s @ [1..<Suc (totalPages m)] \<and>
         images (convertAllPages P s) = page_images P f (settings s) [1..<Suc (totalPages m)] \<and>
         console (convertAllPages P s) =
           console s @ page_failures P f (settings s) [1..<Suc (totalPages m)] \<and>
         isProcessing (convertAllPages P s) = False \<and>
         (\<forall>k err. 1 \<le> k \<and> k \<le> totalPages m \<and>
             convertPageToImage P f k (settings s) = Inl err \<and>
             (\<forall>i. 1 \<le> i \<and> i \<le> totalPages m \<and> i \<noteq> k \<longrightarrow> page_renders P f (settings s) i) \<longrightarrow>
            length (images (convertAllPages P s)) = totalPages m - 1 \<and>
            map pageNumber (images (convertAllPages P s)) = [1..<k] @ [Suc k..<Suc (totalPages m)] \<and>
            k \<notin> set (map pageNumber (images (convertAllPages P s))) \<and>
            sorted_wrt (<) (map pageNumber (images (convertAllPages P s))) \<and>
            FailedToConvertPage k err \<in> set (console (convertAllPages P s)))"
proof (intro conjI allI impI)
  fix k err
  assume h: "1 \<le> k \<and> k \<le> totalPages m \<and>
             convertPageToImage P f k (settings s) = Inl err \<and>
             (\<forall>i. 1 \<le> i \<and> i \<le> totalPages m \<and> i \<noteq> k \<longrightarrow> page_renders P f (settings s) i)"
  then have nk: "\<not> page_renders P f (settings s) k" by (simp add: page_renders_def)
  have pn: "map pageNumber (images (convertAllPages P s)) = [1..<k] @ [Suc k..<Suc (totalPages m)]"
    using h nk
    by (simp only: convertAllPages_fields(2)[OF assms] page_images_pageNumbers)
       (rule filter_all_but, simp_all)
  show "map pageNumber (images (convertAllPages P s)) = [1..<k] @ [Suc k..<Suc (totalPages m)]"
    by (rule pn)
  from h have k1: "1 \<le> k" and k2: "k \<le> totalPages m" by simp_all
  have "length (map pageNumber (images (convertAllPages P s))) = totalPages m - 1"
    using k1 k2 unfolding pn by simp arith
  then show "length (images (convertAllPages P s)) = totalPages m - 1" by simp
  show "k \<notin> set (map pageNumber (images (convertAllPages P s)))"
    by (simp only: pn) simp
  show "sorted_wrt (<) (map pageNumber (images (convertAllPages P s)))"
    by (simp only: convertAllPages_fields(2)[OF assms] page_images_pageNumbers)
       (rule sorted_wrt_filter, rule sorted_wrt_upt)
  show "FailedToConvertPage k err \<in> set (console (convertAllPages P s))"
    using h by (simp add: convertAllPages_fields(3)[OF assms] page_failures_member del: upt_Suc)
qed (simp_all only: convertAllPages_fields[OF assms])

theorem convertAllPages_attempts_every_page_witness:
  "renderCalls (convertAllPages (sample_platform 3 [2]) (sample_session 3 [2])) = [1, 2, 3] \<and>
   isProcessing (convertAllPages (sample_platform 3 [2]) (sample_session 3 [2])) = False \<and>
   length (images (convertAllPages (sample_platform 3 [2]) (sample_session 3 [2]))) = 2 \<and>
   map pageNumber (images (convertAllPages (sample_platform 3 [2]) (sample_session 3 [2]))) = [1, 3] \<and>
   FailedToConvertPage 2 (JsError ''Rendering failed'')
     \<in> set (console (convertAllPages (sample_platform 3 [2]) (sample_session 3 [2])))"
proof -
  note f = sample_session_loaded(1) [of 3 "[2]"]
  note m = sample_session_loaded(2) [of 3 "[2]"]
  note T = convertAllPages_attempts_every_page [OF f m, where P = "sample_platform 3 [2]"]
  have calls: "renderCalls (convertAllPages (sample_platform 3 [2]) (sample_session 3 [2])) = [1, 2, 3]"
    using T [THEN conjunct1] by (simp add: sample_session_loaded upt_rec)
  have fin: "isProcessing (convertAllPages (sample_platform 3 [2]) (sample_session 3 [2])) = False"
    using T by blast
  have pre: "1 \<le> (2::nat) \<and> 2 \<le> totalPages \<lparr>name = ''report.pdf'', size_pdf = 4, totalPages = 3\<rparr> \<and>
      convertPageToImage (sample_platform 3 [2]) (sample_file ''report.pdf'' ''application/pdf'') 2
        (settings (sample_session 3 [2])) = Inl (JsError ''Rendering failed'') \<and>
      (\<forall>i. 1 \<le> i \<and> i \<le> totalPages \<lparr>name = ''report.pdf'', size_pdf = 4, totalPages = 3\<rparr> \<and> i \<noteq> 2 \<longrightarrow>
         page_renders (sample_platform 3 [2]) (sample_file ''report.pdf'' ''application/pdf'')
           (settings (sample_session 3 [2])) i)"
    by (simp add: sample_convertPageToImage sample_page_renders)
  from T pre have
    "length (images (convertAllPages (sample_platform 3 [2]) (sample_session 3 [2])))
       = totalPages \<lparr>name = ''report.pdf'', size_pdf = 4, totalPages = 3\<rparr> - 1 \<and>
     map pageNumber (images (convertAllPages (sample_platform 3 [2]) (sample_session 3 [2])))
       = [1..<2] @ [Suc 2..<Suc (totalPages \<lparr>name = ''report.pdf'', size_pdf = 4, totalPages = 3\<rparr>)] \<and>
     FailedToConvertPage 2 (JsError ''Rendering failed'')
       \<in> set (console (convertAllPages (sample_platform 3 [2]) (sample_session 3 [2])))"
    by blast
  then show ?thesis using calls fin by (simp add: upt_rec)
qed

section \<open>Page numbers of the accumulated images\<close>

text \<open>
  C8. In every session one run of \<open>convertAllPages\<close> goes through (after the reset, after
  each turn of the loop, and at the end), the page numbers of the accumulated images lie
  in \<open>[1, totalPages]\<close> and no page number occurs twice.
\<close>

theorem convertAllPages_page_numbers:
  assumes "file_state s = Some f" and "metadata s = Some m"
  shows "\<forall>t \<in> set (convertAllPages_states P s).
           set (map pageNumber (images t)) \<subseteq> {1..totalPages m} \<and>
           distinct (map pageNumber (images t))"
proof
  fix t assume "t \<in> set (convertAllPages_states P s)"
  then have "t = convertAllPages_begin s \<or>
      (\<exists>j\<in>{1..<Suc (totalPages m)}.
         t = fold (attempt P f (settings s) (totalPages m)) [1..<Suc j] (convertAllPages_begin s)) \<or>
      t = convertAllPages P s"
    using assms
    by (simp add: convertAllPages_states_def convert_trace_map image_iff del: upt_Suc) blast
  then consider (first) "t = convertAllPages_begin s"
    | (turn) j where "j \<le> totalPages m"
        "t = fold (attempt P f (settings s) (totalPages m)) [1..<Suc j] (convertAllPages_begin s)"
    | (final) "t = convertAllPages P s"
    by (auto simp: less_Suc_eq_le)
  then have "\<exists>i\<le>totalPages m.
      map pageNumber (images t) = filter (page_renders P f (settings s)) [1..<Suc i]"
  proof cases
    case first
    then show ?thesis by (intro exI[of _ 0]) (simp add: convertAllPages_begin_simps)
  next
    case turn
    then show ?thesis
      by (intro exI[of _ j])
        (simp add: fold_attempt convertAllPages_begin_simps page_images_pageNumbers
          del: upt_Suc)
  next
    case final
    then show ?thesis
      by (intro exI[of _ "totalPages m"])
        (simp add: convertAllPages_fields(2)[OF assms] page_images_pageNumbers del: upt_Suc)
  qed
  then obtain i where i: "i \<le> totalPages m"
    and t: "map pageNumber (images t) = filter (page_renders P f (settings s)) [1..<Suc i]"
    by blast
  show "set (map pageNumber (images t)) \<subseteq> {1..totalPages m} \<and>
           distinct (map pageNumber (images t))"
    using i unfolding t by auto
qed

theorem convertAllPages_page_numbers_witness:
  "convertAllPages (sample_platform 3 [2]) (sample_session 3 [2])
     \<in> set (convertAllPages_states (sample_platform 3 [2]) (sample_session 3 [2])) \<and>
   set (map pageNumber (images (convertAllPages (sample_platform 3 [2]) (sample_session 3 [2]))))
     \<subseteq> {1..3} \<and>
   distinct (map pageNumber (images (convertAllPages (sample_platform 3 [2]) (sample_session 3 [2]))))"
proof -
  note f = sample_session_loaded(1) [of 3 "[2]"]
  note m = sample_session_loaded(2) [of 3 "[2]"]
  have i: "convertAllPages (sample_platform 3 [2]) (sample_session 3 [2])
     \<in> set (convertAllPages_states (sample_platform 3 [2]) (sample_session 3 [2]))"
    by (simp add: convertAllPages_states_def f m)
  from convertAllPages_page_numbers [OF f m, where P = "sample_platform 3 [2]"] i
  have "set (map pageNumber (images (convertAllPages (sample_platform 3 [2]) (sample_session 3 [2]))))
     \<subseteq> {1..totalPages \<lparr>name = ''report.pdf'', size_pdf = 4, totalPages = 3\<rparr>} \<and>
   distinct (map pageNumber (images (convertAllPages (sample_platform 3 [2]) (sample_session 3 [2]))))"
    by blast
  with i show ?thesis by simp
qed

section \<open>What the start of a run resets\<close>

text \<open>
  C7. A run starts by emptying the images, but it does not touch the progress: started
  again after a run that ended at 100, \<open>convertAllPages\<close> is at progress 100 before its
  first page is attempted, and stays there until a page renders.
\<close>

theorem convertAllPages_starts_with_stale_progress:
  "progress (convertAllPages (sample_platform 1 []) (sample_session 1 [])) = 100 \<and>
   progress (convertAllPages_begin
               (convertAllPages (sample_platform 1 []) (sample_session 1 []))) = 100 \<and>
   images (convertAllPages_begin
             (convertAllPages (sample_platform 1 []) (sample_session 1 []))) = [] \<and>
   map progress (convertAllPages_states (sample_platform 1 [])
                   (convertAllPages (sample_platform 1 []) (sample_session 1 [])))
     = [100, 100, 100]"
  by code_simp

section \<open>Changing the settings\<close>

text \<open>
  C9. Changing the settings (the scale, and also the format or the quality) leaves the
  accumulated images as they are, so the width, height, bytes and data URL of every
  image already produced are unchanged. A run already in flight keeps the settings it
  started with. Only a run started after the change uses the new scale: its images are
  the renders of the pages under the updated settings, with the dimensions of the
  viewport at the new scale.
\<close>

theorem settings_change_keeps_images:
  assumes "file_state s = Some f" and "metadata s = Some m"
  shows "images (setScale v s) = images s \<and>
         images (setFormat fm s) = images s \<and>
         images (setQuality q s) = images s \<and>
         images (attempt P f st n i (setScale v s)) = images (attempt P f st n i s) \<and>
         images (convertAllPages P (setScale v s)) =
           page_images P f ((settings s)\<lparr>scale := v\<rparr>) [1..<Suc (totalPages m)] \<and>
         (\<forall>img \<in> set (images (convertAllPages P (setScale v s))).
            \<exists>buf pdf page. arrayBuffer P f = Inr buf \<and> getDocument P buf = Inr pdf \<and>
              getPage P pdf (pageNumber img) = Inr page \<and>
              width img = canvas_dim (fst (getViewport P page v)) \<and>
              height img = canvas_dim (snd (getViewport P page v)))"
proof -
  have f': "file_state (setScale v s) = Some f" and m': "metadata (setScale v s) = Some m"
    using assms by (simp_all add: set_settings_simps)
  have run: "images (convertAllPages P (setScale v s)) =
           page_images P f ((settings s)\<lparr>scale := v\<rparr>) [1..<Suc (totalPages m)]"
    by (simp only: convertAllPages_fields(2)[OF f' m'] set_settings_simps)
  have dims: "\<exists>buf pdf page. arrayBuffer P f = Inr buf \<and> getDocument P buf = Inr pdf \<and>
              getPage P pdf (pageNumber img) = Inr page \<and>
              width img = canvas_dim (fst (getViewport P page v)) \<and>
              height img = canvas_dim (snd (getViewport P page v))"
    if "img \<in> set (images (convertAllPages P (setScale v s)))" for img
    using convertPageToImage_dims[OF page_images_members[OF that[unfolded run]]] by simp
  show ?thesis
    using run dims by (simp add: set_settings_simps attempt_simps)
qed

theorem settings_change_keeps_images_witness:
  "map width (images (convertAllPages (sample_platform 2 []) (sample_session 2 []))) = [1224, 1224] \<and>
   map width (images (setScale 1 (convertAllPages (sample_platform 2 []) (sample_session 2 []))))
     = [1224, 1224] \<and>
   map width (images (convertAllPages (sample_platform 2 [])
       (setScale 1 (convertAllPages (sample_platform 2 []) (sample_session 2 []))))) = [612, 612]"
proof -
  note T = settings_change_keeps_images [OF converted_sample_loaded,
      where P = "sample_platform 2 []" and v = 1]
  have before: "map width (images (convertAllPages (sample_platform 2 []) (sample_session 2 [])))
      = [1224, 1224]"
    by (simp add: convertAllPages_fields(2)[OF sample_session_loaded(1) sample_session_loaded(2)]
        sample_session_loaded page_images_def sample_convertPageToImage upt_rec
        sample_settings_def canvas_dim_def)
  have kept: "images (setScale 1 (convertAllPages (sample_platform 2 []) (sample_session 2 [])))
      = images (convertAllPages (sample_platform 2 []) (sample_session 2 []))"
    using T by blast
  have "images (convertAllPages (sample_platform 2 [])
       (setScale 1 (convertAllPages (sample_platform 2 []) (sample_session 2 []))))
     = page_images (sample_platform 2 []) (sample_file ''report.pdf'' ''application/pdf'')
         ((settings (convertAllPages (sample_platform 2 []) (sample_session 2 [])))\<lparr>scale := 1\<rparr>)
         [1..<Suc (totalPages \<lparr>name = ''report.pdf'', size_pdf = 4, totalPages = 2\<rparr>)]"
    using T by blast
  then have after: "map width (images (convertAllPages (sample_platform 2 [])
       (setScale 1 (convertAllPages (sample_platform 2 []) (sample_session 2 []))))) = [612, 612]"
    by (simp add: page_images_def sample_convertPageToImage upt_rec canvas_dim_def)
  from before kept after show ?thesis by simp
qed

section \<open>Loading a document during a run\<close>

text \<open>
  C4 (as amended). When a second document is loaded while a conversion run is still in
  flight, the load empties the accumulated images, so no image the stale run published
  before the load stays in the new session. The results of a run carry no document
  identity and nothing drops them: every page the stale run renders after the load is
  appended to the images of the new session, also when the page settles while the load
  is still awaiting its metadata.
\<close>

theorem stale_run_writes_after_load:
  assumes "type_file f2 = ''application/pdf''"
    and "convertPageToImage P f1 i st = Inr img"
  shows "images (handleFileUpload P (Some f2) s) = [] \<and>
         file_state (handleFileUpload P (Some f2) s) = Some f2 \<and>
         images (attempt P f1 st n i (handleFileUpload P (Some f2) s)) = [img] \<and>
         file_state (attempt P f1 st n i (handleFileUpload P (Some f2) s)) = Some f2 \<and>
         images (handleFileUpload_rest P f2 (attempt P f1 st n i (handleFileUpload_sync f2 s)))
           = [img]"
  using assms
  by (simp add: handleFileUpload_def handleFileUpload_rest_images handleFileUpload_sync_images
      attempt_simps page_images_def)

theorem stale_run_writes_after_load_witness:
  "images (handleFileUpload byte_platform (Some doc_b) run_a_page1) = [] \<and>
   map blob (images (attempt byte_platform doc_a (settings session_a) 2 2
                 (handleFileUpload byte_platform (Some doc_b) run_a_page1))) = [Some [11]]"
proof -
  have b: "type_file doc_b = ''application/pdf''" by (simp add: doc_b_def)
  have r: "convertPageToImage byte_platform doc_a 2 (settings session_a)
     = Inr \<lparr>id_img = ''p-2-1002'', pageNumber = 2, dataUrl = ''data:image/png;base64,Cw=='',
             blob = Some [11], width = 1224, height = 1584\<rparr>"
    by code_simp
  from stale_run_writes_after_load [OF b r, of run_a_page1 2] show ?thesis by simp
qed

text \<open>
  In the interleaving of \<open>session_b_later\<close> the session holds \<open>doc_b\<close>, a document of one
  page, and its images are the render of page 2 of \<open>doc_a\<close>.
\<close>

theorem stale_run_writes_after_load_counterexample:
  "file_state session_b = Some doc_b \<and>
   metadata session_b = Some \<lparr>name = ''b.pdf'', size_pdf = 1, totalPages = 1\<rparr> \<and>
   images session_b = [] \<and>
   file_state session_b_later = Some doc_b \<and>
   images session_b_later = page_images byte_platform doc_a (settings session_a) [2] \<and>
   map pageNumber (images session_b_later) = [2] \<and>
   map blob (images session_b_later) = [Some [11]]"
  by code_simp

section \<open>The two encodings of a page\<close>

text \<open>
  C5 (as amended). For every image of a successful render, \<open>dataUrl\<close> and \<open>blob\<close> are two
  separate encodings of the same rendered canvas, made by \<open>toDataURL\<close> and by \<open>toBlob\<close>
  with the same MIME type and the same quality. Decoding the \<open>dataUrl\<close> gives the bytes of
  the \<open>blob\<close> exactly when the two encoders of the platform agree on that canvas.
\<close>

theorem dataUrl_and_blob_encoded_separately:
  assumes "convertPageToImage P f k st = Inr img"
  shows "\<exists>canvas.
           dataUrl img = toDataURL P canvas (''image/'' @ format_str (format st)) (quality st) \<and>
           blob img = toBlob P canvas (''image/'' @ format_str (format st)) (quality st) \<and>
           (decode_data_url (dataUrl img) = blob img \<longleftrightarrow>
              decode_data_url (toDataURL P canvas (''image/'' @ format_str (format st)) (quality st))
                = toBlob P canvas (''image/'' @ format_str (format st)) (quality st))"
  using convertPageToImage_encodings[OF assms] by auto

theorem dataUrl_and_blob_encoded_separately_witness:
  "convertPageToImage byte_platform doc_a 2 sample_settings
     = Inr \<lparr>id_img = ''p-2-1002'', pageNumber = 2, dataUrl = ''data:image/png;base64,Cw=='',
             blob = Some [11], width = 1224, height = 1584\<rparr> \<and>
   decode_data_url ''data:image/png;base64,Cw=='' = Some [11]"
proof -
  have r: "convertPageToImage byte_platform doc_a 2 sample_settings
     = Inr \<lparr>id_img = ''p-2-1002'', pageNumber = 2, dataUrl = ''data:image/png;base64,Cw=='',
             blob = Some [11], width = 1224, height = 1584\<rparr>"
    by code_simp
  have e: "decode_data_url (toDataURL byte_platform c (''image/'' @ format_str (format sample_settings))
              (quality sample_settings))
           = toBlob byte_platform c (''image/'' @ format_str (format sample_settings))
              (quality sample_settings)" if "c = 11" for c
    unfolding that by code_simp
  from dataUrl_and_blob_encoded_separately [OF r] obtain canvas where
    c: "Some [11] = toBlob byte_platform canvas (''image/'' @ format_str (format sample_settings))
              (quality sample_settings)"
    and d: "decode_data_url ''data:image/png;base64,Cw=='' = Some [11] \<longleftrightarrow>
              decode_data_url (toDataURL byte_platform canvas
                  (''image/'' @ format_str (format sample_settings)) (quality sample_settings))
                = toBlob byte_platform canvas (''image/'' @ format_str (format sample_settings))
                    (quality sample_settings)"
    by auto
  from c have "canvas = 11" by (simp add: byte_platform_def)
  with e d r show ?thesis by simp
qed

text \<open>
  On a platform whose \<open>toBlob\<close> does not repeat the bytes of \<open>toDataURL\<close>, the image of
  page 1 has a \<open>dataUrl\<close> that decodes to the byte 0 and a \<open>blob\<close> holding the byte 1.
\<close>

theorem dataUrl_and_blob_encoded_separately_counterexample:
  "map pageNumber (page_images reencoding_platform (sample_file ''report.pdf'' ''application/pdf'')
          sample_settings [1]) = [1] \<and>
   map (decode_data_url \<circ> dataUrl)
       (page_images reencoding_platform (sample_file ''report.pdf'' ''application/pdf'')
          sample_settings [1]) = [Some [0]] \<and>
   map blob
       (page_images reencoding_platform (sample_file ''report.pdf'' ''application/pdf'')
          sample_settings [1]) = [Some [1]]"
  by code_simp

section \<open>Names of the archive entries\<close>

text \<open>
  C6 (as amended). Packaging \<open>N\<close> accumulated images (pages \<open>1, \<dots>, N\<close>) with the base name
  \<open>report\<close> under the lossy format gives exactly \<open>N\<close> archive entries, named
  \<open>report_page_1.jpeg\<close>, \<dots>, \<open>report_page_N.jpeg\<close> in this order, with no name twice: the
  extension is the format name of the settings itself (\<open>png\<close> or \<open>jpeg\<close>).
\<close>

theorem downloadAllAsZip_entry_names:
  assumes "map pageNumber (images s) = [1..<Suc N]" and "0 < N"
    and "folderName P s = ''report''" and "format (settings s) = jpeg"
  shows "\<exists>entries. downloadAllAsZip P s = Some (''report.zip'', entries) \<and>
           map fst entries = map (\<lambda>k. ''report_page_'' @ show_nat k @ ''.jpeg'') [1..<Suc N] \<and>
           map snd entries = map blob (images s) \<and>
           length entries = N \<and> distinct (map fst entries)"
proof -
  let ?entries = "map (\<lambda>img. (entry_name (folderName P s) img (settings s), blob img)) (images s)"
  have d: "distinct (map pageNumber (images s))" by (simp only: assms(1) distinct_upt)
  have len: "length (images s) = N"
    using arg_cong[OF assms(1), of length] by simp
  have z: "downloadAllAsZip P s = Some (''report.zip'', ?entries)"
    using assms(2,3) len fold_zip_file[OF d, of "folderName P s" "settings s" "[]"]
    by (simp add: downloadAllAsZip_def)
  have "map fst ?entries = map (\<lambda>k. ''report_page_'' @ show_nat k @ ''.jpeg'') (map pageNumber (images s))"
    by (simp add: entry_name_def assms(3,4) comp_def)
  then have names: "map fst ?entries = map (\<lambda>k. ''report_page_'' @ show_nat k @ ''.jpeg'') [1..<Suc N]"
    by (simp only: assms(1))
  have "inj_on (\<lambda>k. ''report_page_'' @ show_nat k @ ''.jpeg'') (set [1..<Suc N])"
    by (rule inj_onI) (simp add: show_nat_inj)
  then have dist: "distinct (map fst ?entries)"
    unfolding names by (simp add: distinct_map del: upt_Suc)
  have "map snd ?entries = map blob (images s)" by (simp add: comp_def)
  with z names dist len show ?thesis by (intro exI[of _ ?entries]) simp
qed

theorem downloadAllAsZip_entry_names_witness:
  "\<exists>entries. downloadAllAsZip (sample_platform 2 []) (jpeg_session 2)
       = Some (''report.zip'', entries) \<and>
     map fst entries = [''report_page_1.jpeg'', ''report_page_2.jpeg''] \<and>
     length entries = 2 \<and> distinct (map fst entries)"
proof -
  have n: "0 < (2::nat)" by simp
  have s: "map (\<lambda>k. ''report_page_'' @ show_nat k @ ''.jpeg'') [1..<Suc 2]
      = [''report_page_1.jpeg'', ''report_page_2.jpeg'']"
    by code_simp
  from downloadAllAsZip_entry_names [OF jpeg_session_facts(1) n jpeg_session_facts(2,3)]
  show ?thesis
  proof (elim exE conjE)
    fix entries
    assume a1: "downloadAllAsZip (sample_platform 2 []) (jpeg_session 2)
        = Some (''report.zip'', entries)"
      and a2: "map fst entries = map (\<lambda>k. ''report_page_'' @ show_nat k @ ''.jpeg'') [1..<Suc 2]"
      and a4: "length entries = 2"
      and a5: "distinct (map fst entries)"
    have "downloadAllAsZip (sample_platform 2 []) (jpeg_session 2)
          = Some (''report.zip'', entries) \<and>
        map fst entries = [''report_page_1.jpeg'', ''report_page_2.jpeg''] \<and>
        length entries = 2 \<and> distinct (map fst entries)"
      by (rule conjI [OF a1 conjI [OF a2 [unfolded s] conjI [OF a4 a5]]])
    then show ?thesis by (rule exI)
  qed
qed

text \<open>
  One JPEG image under the base name \<open>report\<close>: the entry is \<open>report_page_1.jpeg\<close>, not
  \<open>report_page_1.jpg\<close>.
\<close>

theorem downloadAllAsZip_entry_names_counterexample:
  "downloadAllAsZip (sample_platform 1 []) (jpeg_session 1)
     = Some (''report.zip'', [(''report_page_1.jpeg'', Some [0])]) \<and>
   downloadAllAsZip (sample_platform 1 []) (jpeg_session 1)
     \<noteq> Some (''report.zip'', [(''report_page_1.jpg'', Some [0])])"
  unfolding downloadAllAsZip_def jpeg_session_1_images jpeg_session_1_folderName
    jpeg_session_1_settings
  by (simp add: zip_file_def entry_name_def show_nat_samples)

end
